theory Spec2Isabelle
  imports Main
begin

section \<open>Header values and comma-separated lists\<close>

text \<open>
  A request header read through \<open>adapter.getHeader\<close> is a string or \<open>undefined\<close>
  (\<open>string option\<close>). In a condition, \<open>undefined\<close> and the empty string are falsy.
\<close>

definition truthy :: "string option \<Rightarrow> bool" where
  "truthy h = (case h of None \<Rightarrow> False | Some s \<Rightarrow> s \<noteq> [])"

text \<open>\<open>s.split(c)\<close>: the pieces of \<open>s\<close> between the occurrences of \<open>c\<close>; never empty.\<close>

fun split_str :: "char \<Rightarrow> string \<Rightarrow> string list" where
  "split_str c [] = [[]]"
| "split_str c (x # xs) =
     (if x = c then [] # split_str c xs
      else (x # hd (split_str c xs)) # tl (split_str c xs))"

text \<open>\<open>header.split(",").filter(Boolean)\<close>: the non-empty pieces.\<close>

definition commaList :: "string \<Rightarrow> string list" where
  "commaList s = filter (\<lambda>w. w \<noteq> []) (split_str CHR '','' s)"

section \<open>JavaScript objects with string keys\<close>

text \<open>
  An object is the list of its own properties in the order \<open>Object.entries\<close> lists them:
  array-index keys first, in ascending numeric order, then the other keys in the order
  of their creation. Property reads are reads of own properties: keys are taken not to
  name a member of \<open>Object.prototype\<close>.
\<close>

type_synonym 'a obj = "(string \<times> 'a) list"

definition isDigit :: "char \<Rightarrow> bool" where
  "isDigit c = ((48 :: int) \<le> of_char c \<and> (of_char c :: int) \<le> 57)"

definition decimal :: "string \<Rightarrow> int" where
  "decimal k = foldl (\<lambda>n c. 10 * n + (of_char c - 48)) 0 k"

text \<open>An array index is a canonical decimal numeral below \<open>2^32 - 1\<close>.\<close>

definition arrayIndex :: "string \<Rightarrow> int option" where
  "arrayIndex k =
     (if k \<noteq> [] \<and> list_all isDigit k \<and> (k = ''0'' \<or> hd k \<noteq> CHR ''0'')
         \<and> decimal k < 4294967295
      then Some (decimal k) else None)"

definition entries :: "'a obj \<Rightarrow> (string \<times> 'a) list" where
  "entries ob = ob"

definition keys :: "'a obj \<Rightarrow> string list" where
  "keys ob = map fst ob"

definition hasOwn :: "'a obj \<Rightarrow> string \<Rightarrow> bool" where
  "hasOwn ob k = (k \<in> set (keys ob))"

fun insertIndex :: "int \<Rightarrow> string \<Rightarrow> 'a \<Rightarrow> 'a obj \<Rightarrow> 'a obj" where
  "insertIndex n k v [] = [(k, v)]"
| "insertIndex n k v ((k', v') # rest) =
     (case arrayIndex k' of
        Some m \<Rightarrow> if m < n then (k', v') # insertIndex n k v rest
                  else (k, v) # (k', v') # rest
      | None \<Rightarrow> (k, v) # (k', v') # rest)"

text \<open>\<open>ob[k] = v\<close>: an existing property keeps its place, a new one is created.\<close>

definition put :: "string \<Rightarrow> 'a \<Rightarrow> 'a obj \<Rightarrow> 'a obj" where
  "put k v ob =
     (if hasOwn ob k then map (\<lambda>(k', v'). if k' = k then (k', v) else (k', v')) ob
      else case arrayIndex k of
             Some n \<Rightarrow> insertIndex n k v ob
           | None \<Rightarrow> ob @ [(k, v)])"

text \<open>\<open>delete ob[k]\<close>.\<close>

definition delete :: "string \<Rightarrow> 'a obj \<Rightarrow> 'a obj" where
  "delete k ob = filter (\<lambda>(k', _). k' \<noteq> k) ob"

text \<open>\<open>Object.fromEntries(es)\<close> and the object literal \<open>{...a, ...b}\<close>.\<close>

definition fromEntries :: "(string \<times> 'a) list \<Rightarrow> 'a obj" where
  "fromEntries es = fold (\<lambda>(k, v). put k v) es []"

definition spread :: "'a obj \<Rightarrow> 'a obj \<Rightarrow> 'a obj" where
  "spread a b = fold (\<lambda>(k, v). put k v) (entries b) (fold (\<lambda>(k, v). put k v) (entries a) [])"

section \<open>Prop values\<close>

datatype error = Error string

text \<open>
  Modelled from the spec: \<open>props.js\<close> (the wrapper classes \<open>OptionalProp\<close>,
  \<open>DeferProp\<close>, \<open>MergeProp\<close>, \<open>AlwaysProp\<close>, the base class \<open>MergeableProp\<close>
  and \<open>ignoreFirstLoadSymbol\<close>) is not among the sources. Following the spec's data
  model, a prop value is a plain value or one of the wrappers around a callback; a
  Deferred wrapper carries its group, a Merge wrapper its merge flag, and exactly the
  Optional and Deferred wrappers carry the ignore-first-load marker.

  A callback is represented by its outcome when invoked: the error it throws (or
  rejects with), or the value it returns. \<open>Func\<close> is a plain function of the
  request and response, \<open>Undefined\<close> is the value \<open>undefined\<close>, and
  \<open>Plain\<close> is any other value that is neither a function nor a wrapper.
\<close>

datatype 'v jsval =
    Undefined
  | Plain 'v
  | Func "error + 'v jsval"
  | OptionalProp "error + 'v jsval"
  | DeferProp "error + 'v jsval" string
  | MergeProp "error + 'v jsval" bool
  | AlwaysProp "error + 'v jsval"

text \<open>\<open>value && value[ignoreFirstLoadSymbol]\<close>\<close>

fun ignoreFirstLoad :: "'v jsval \<Rightarrow> bool" where
  "ignoreFirstLoad (OptionalProp _) = True"
| "ignoreFirstLoad (DeferProp _ _) = True"
| "ignoreFirstLoad _ = False"

text \<open>\<open>value instanceof AlwaysProp\<close>\<close>

fun isAlwaysProp :: "'v jsval \<Rightarrow> bool" where
  "isAlwaysProp (AlwaysProp _) = True"
| "isAlwaysProp _ = False"

text \<open>\<open>value instanceof MergeableProp && value.shouldMerge\<close>\<close>

fun shouldMerge :: "'v jsval \<Rightarrow> bool" where
  "shouldMerge (MergeProp _ flag) = flag"
| "shouldMerge _ = False"

text \<open>\<open>value instanceof DeferProp\<close>, with \<open>value.getGroup()\<close>.\<close>

fun getGroup :: "'v jsval \<Rightarrow> string option" where
  "getGroup (DeferProp _ grp) = Some grp"
| "getGroup _ = None"

text \<open>\<open>props[key]\<close>: the value of the property, or \<open>undefined\<close>.\<close>

definition get :: "'v jsval obj \<Rightarrow> string \<Rightarrow> 'v jsval" where
  "get props key = (case map_of props key of Some value \<Rightarrow> value | None \<Rightarrow> Undefined)"

section \<open>The request, as the adapter reports it\<close>

text \<open>
  Modelled from the spec: \<open>headers.js\<close> (the constant \<open>InertiaHeaders\<close>) is not among
  the sources; its members are kept symbolic.
\<close>

datatype InertiaHeaders =
  Inertia | Reset | Location | PartialOnly | PartialExcept | PartialComponent

record request =
  req_headers :: "InertiaHeaders \<Rightarrow> string option"
  req_method :: string
  req_url :: string

definition getHeader :: "request \<Rightarrow> InertiaHeaders \<Rightarrow> string option" where
  "getHeader req name = req_headers req name"

definition getMethod :: "request \<Rightarrow> string" where
  "getMethod req = req_method req"

definition getUrl :: "request \<Rightarrow> string" where
  "getUrl req = req_url req"

section \<open>Partial-reload filter\<close>

definition isPartial :: "request \<Rightarrow> string \<Rightarrow> bool" where
  "isPartial req component = (getHeader req PartialComponent = Some component)"

text \<open>
  \<open>partialOnlyHeader!.split(",")\<close> is a TypeError when the header is \<open>undefined\<close>.
\<close>

definition resolveOnly :: "request \<Rightarrow> 'v jsval obj \<Rightarrow> error + 'v jsval obj" where
  "resolveOnly req props =
     (case getHeader req PartialOnly of
        None \<Rightarrow> Inl (Error ''TypeError'')
      | Some partialOnlyHeader \<Rightarrow>
          Inr (fold (\<lambda>key newProps. put key (get props key) newProps)
                 (commaList partialOnlyHeader) []))"

definition resolveExcept :: "request \<Rightarrow> 'v jsval obj \<Rightarrow> error + 'v jsval obj" where
  "resolveExcept req props =
     (case getHeader req PartialExcept of
        None \<Rightarrow> Inl (Error ''TypeError'')
      | Some partialExceptHeader \<Rightarrow>
          Inr (fold delete (commaList partialExceptHeader) props))"

text \<open>The keys the two headers list: the lists the two loops above run over.\<close>

definition onlyKeys :: "request \<Rightarrow> string list" where
  "onlyKeys req = (case getHeader req PartialOnly of Some h \<Rightarrow> commaList h | None \<Rightarrow> [])"

definition exceptKeys :: "request \<Rightarrow> string list" where
  "exceptKeys req = (case getHeader req PartialExcept of Some h \<Rightarrow> commaList h | None \<Rightarrow> [])"

text \<open>
  The last loop of \<open>#pickPropsToResolve\<close>:
  \<open>for (const [key, value] of Object.entries(props))
    if (value instanceof AlwaysProp) newProps[key] = props[key]\<close>.
\<close>

definition forceAlways :: "'v jsval obj \<Rightarrow> 'v jsval obj \<Rightarrow> 'v jsval obj" where
  "forceAlways props newProps =
     fold (\<lambda>(key, value) newProps.
             if isAlwaysProp value then put key (get props key) newProps else newProps)
       (entries props) newProps"


text \<open>
  \<open>#pickPropsToResolve\<close>. The source starts with \<open>newProps = props\<close>: one object under
  two names. The states \<open>st1\<close> and \<open>st2\<close> below are triples of \<open>props\<close>, \<open>newProps\<close>
  and a flag that records whether the two names still denote one object;
  \<open>#resolveExcept\<close> deletes in place, so while the names are aliased its deletions show
  in \<open>props\<close> too. In the final loop \<open>newProps[key] = props[key]\<close> then writes the
  value the aliased object already holds.
\<close>

definition pickPropsToResolve ::
  "request \<Rightarrow> string \<Rightarrow> 'v jsval obj \<Rightarrow> error + 'v jsval obj" where
  "pickPropsToResolve req component props0 =
     (let isPartial = isPartial req component;
          st1 = (if \<not> isPartial
                 then (props0,
                       fromEntries (filter (\<lambda>(_, value). \<not> ignoreFirstLoad value)
                                      (entries props0)),
                       False)
                 else (props0, props0, True));
          partialOnlyHeader = getHeader req PartialOnly;
          partialExceptHeader = getHeader req PartialExcept
      in case (if isPartial \<and> truthy partialOnlyHeader
               then (case resolveOnly req (fst st1) of
                       Inl e \<Rightarrow> Inl e
                     | Inr only \<Rightarrow> Inr (fst st1, only, False))
               else Inr st1) of
           Inl e \<Rightarrow> Inl e
         | Inr st2 \<Rightarrow>
             (case (if isPartial \<and> truthy partialExceptHeader
                    then (case st2 of (props, newProps, aliased) \<Rightarrow>
                           (case resolveExcept req newProps of
                              Inl e \<Rightarrow> Inl e
                            | Inr rest \<Rightarrow>
                                Inr (if aliased then rest else props, rest, aliased)))
                    else Inr st2) of
                Inl e \<Rightarrow> Inl e
              | Inr (props, newProps, aliased) \<Rightarrow>
                  Inr (forceAlways props newProps)))"

section \<open>Prop resolver\<close>

fun resolveProp :: "string \<Rightarrow> 'v jsval \<Rightarrow> error + (string \<times> 'v jsval)" where
  "resolveProp key (OptionalProp callback) = map_sum id (Pair key) callback"
| "resolveProp key (MergeProp callback _) = map_sum id (Pair key) callback"
| "resolveProp key (DeferProp callback _) = map_sum id (Pair key) callback"
| "resolveProp key (AlwaysProp callback) = map_sum id (Pair key) callback"
| "resolveProp key value = Inr (key, value)"

fun resolveEntry :: "string \<times> 'v jsval \<Rightarrow> error + (string \<times> 'v jsval)" where
  "resolveEntry (key, Func call) =
     (case call of Inl e \<Rightarrow> Inl e | Inr result \<Rightarrow> resolveProp key result)"
| "resolveEntry (key, value) = resolveProp key value"

text \<open>
  \<open>Promise.all\<close>: the list of results, or a rejection as soon as one promise
  rejects. The model reports the rejection of the first failing entry.
\<close>

fun promiseAll :: "(error + 'a) list \<Rightarrow> error + 'a list" where
  "promiseAll [] = Inr []"
| "promiseAll (p # ps) =
     (case p of
        Inl e \<Rightarrow> Inl e
      | Inr x \<Rightarrow> (case promiseAll ps of Inl e \<Rightarrow> Inl e | Inr xs \<Rightarrow> Inr (x # xs)))"

definition resolvePageProps :: "'v jsval obj \<Rightarrow> error + 'v jsval obj" where
  "resolvePageProps props =
     (case promiseAll (map resolveEntry (entries props)) of
        Inl e \<Rightarrow> Inl e
      | Inr resolved \<Rightarrow> Inr (fromEntries resolved))"

section \<open>Page object builder\<close>

record 'v inertia =
  sharedData :: "'v jsval obj"
  shouldClearHistory :: bool
  shouldEncryptHistory :: bool
  assetsVersion :: string
  ssrEnabled :: bool

text \<open>\<open>pageProps || {}\<close>, for the optional argument \<open>pageProps\<close>.\<close>

definition orEmpty :: "'a obj option \<Rightarrow> 'a obj" where
  "orEmpty pageProps = (case pageProps of None \<Rightarrow> [] | Some ps \<Rightarrow> ps)"

text \<open>
  One step of the \<open>reduce\<close>: \<open>if (!groups[group]) groups[group] = []\<close> and then
  \<open>groups[group].push(key)\<close>.
\<close>

definition pushKey :: "string \<times> string \<Rightarrow> string list obj \<Rightarrow> string list obj" where
  "pushKey kg groups =
     (case kg of (key, grp) \<Rightarrow>
        (let groups1 = (if hasOwn groups grp then groups else put grp [] groups)
         in put grp ((case map_of groups1 grp of Some ks \<Rightarrow> ks | None \<Rightarrow> []) @ [key]) groups1))"

definition resolveDeferredProps ::
  "request \<Rightarrow> string \<Rightarrow> 'v jsval obj option \<Rightarrow> string list obj option" where
  "resolveDeferredProps req component pageProps =
     (if isPartial req component then None
      else
        (let deferredProps =
               fold pushKey
                 (List.map_filter
                    (\<lambda>(key, value). map_option (Pair key) (getGroup value))
                    (entries (orEmpty pageProps)))
                 []
         in if length (keys deferredProps) \<noteq> 0 then Some deferredProps else None))"


text \<open>The keys the "reset" header lists.\<close>

definition resetKeys :: "request \<Rightarrow> string list" where
  "resetKeys req = commaList (case getHeader req Reset of Some h \<Rightarrow> h | None \<Rightarrow> [])"

definition resolveMergeProps :: "request \<Rightarrow> 'v jsval obj option \<Rightarrow> string list option" where
  "resolveMergeProps req pageProps =
     (let inertiaResetHeader = (case getHeader req Reset of
                                  Some h \<Rightarrow> if h = [] then [] else h
                                | None \<Rightarrow> []);
          resetProps = set (commaList inertiaResetHeader);
          mergeProps = filter (\<lambda>key. key \<notin> resetProps)
                         (map fst (filter (\<lambda>(_, value). shouldMerge value)
                                     (entries (orEmpty pageProps))))
      in if length mergeProps \<noteq> 0 then Some mergeProps else None)"

text \<open>The page object; the argument \<open>component\<close> of the builder is written \<open>name\<close>.\<close>

record 'v pageObject =
  component :: string
  url :: string
  version :: string
  props :: "'v jsval obj"
  clearHistory :: bool
  encryptHistory :: bool
  mergeProps :: "string list option"
  deferredProps :: "string list obj option"

definition buildPageObject ::
  "'v inertia \<Rightarrow> request \<Rightarrow> string \<Rightarrow> 'v jsval obj option \<Rightarrow> error + 'v pageObject" where
  "buildPageObject this req name pageProps =
     (case pickPropsToResolve req name (spread (sharedData this) (orEmpty pageProps)) of
        Inl e \<Rightarrow> Inl e
      | Inr propsToResolve \<Rightarrow>
          (case resolvePageProps propsToResolve of
             Inl e \<Rightarrow> Inl e
           | Inr resolved \<Rightarrow>
               Inr \<lparr> component = name,
                     url = (if getUrl req = [] then ''/'' else getUrl req),
                     version = assetsVersion this,
                     props = resolved,
                     clearHistory = shouldClearHistory this,
                     encryptHistory = shouldEncryptHistory this,
                     mergeProps = resolveMergeProps req pageProps,
                     deferredProps = resolveDeferredProps req name pageProps \<rparr>))"

definition share :: "'v jsval obj \<Rightarrow> 'v inertia \<Rightarrow> 'v inertia" where
  "share data this = this \<lparr> sharedData := spread (sharedData this) data \<rparr>"

section \<open>Response directives\<close>

text \<open>
  What an Inertia method asks of its adapter is recorded as the list of adapter calls
  it makes, in order, together with the error it throws, if any. A header name or value
  is a string literal or a member of \<open>InertiaHeaders\<close>.
\<close>

datatype hstr = Lit string | Hdr InertiaHeaders

datatype 'v call =
    SetHeader hstr hstr
  | SetStatus int
  | Json "'v pageObject"
  | Html string
  | Redirect int string

text \<open>
  The first argument of \<open>redirect\<close> is a number or a string; its optional second
  argument \<open>url\<close> is written \<open>target\<close>.
\<close>

datatype statusOrUrl = Status int | Url string

definition redirect ::
  "request \<Rightarrow> statusOrUrl \<Rightarrow> string option \<Rightarrow> 'v call list \<times> error option" where
  "redirect req statusOrUrl target =
     (let (status, location) =
            (case statusOrUrl of
               Status n \<Rightarrow> (n, case target of Some u \<Rightarrow> u | None \<Rightarrow> [])
             | Url u \<Rightarrow> (302, u))
      in if location = [] then ([], Some (Error ''Redirect URL is required''))
         else
           (let method = (if getMethod req = [] then ''HEAD'' else getMethod req);
                status = (if status = 302 \<and> method \<in> set [''PUT'', ''PATCH'', ''DELETE'']
                          then 303 else status)
            in ([SetHeader (Lit ''Vary'') (Hdr Inertia), Redirect status location], None)))"

text \<open>
  \<open>render\<close>. For a request without the protocol header the HTML document comes from
  \<open>#renderOnServer\<close> or \<open>#renderView\<close>; the server renderer, the template source and
  the entity encoder they use are external, so both are parameters here. Nothing in
  \<open>render\<close> catches an error: one thrown while the page object is built, or by an
  adapter call, rejects the promise \<open>render\<close> returns.
\<close>

definition render ::
  "('v pageObject \<Rightarrow> 'v call list \<times> error option) \<Rightarrow>
   ('v pageObject \<Rightarrow> 'v call list \<times> error option) \<Rightarrow>
   'v inertia \<Rightarrow> request \<Rightarrow> string \<Rightarrow> 'v jsval obj option \<Rightarrow> 'v call list \<times> error option" where
  "render renderOnServer renderView this req name pageProps =
     (case buildPageObject this req name pageProps of
        Inl e \<Rightarrow> ([], Some e)
      | Inr pageObject \<Rightarrow>
          (let isInertiaRequest = truthy (getHeader req Inertia)
           in if \<not> isInertiaRequest
              then (if ssrEnabled this then renderOnServer pageObject
                    else renderView pageObject)
              else ([SetHeader (Hdr Inertia) (Lit ''true''), Json pageObject], None)))"

section \<open>The HTTP adapters' \<open>json\<close>\<close>

text \<open>
  The response of \<open>node:http\<close>: its status code, its headers, and the body it was ended
  with (\<open>None\<close> while it has not been ended). \<open>JSON.stringify\<close> is a parameter: it
  returns the encoding or throws.
\<close>

record response =
  statusCode :: int
  headers :: "(string \<times> string) list"
  body :: "string option"

definition response_setHeader :: "string \<Rightarrow> string \<Rightarrow> response \<Rightarrow> response" where
  "response_setHeader name content res =
     res \<lparr> headers := (name, content) # filter (\<lambda>(n, _). n \<noteq> name) (headers res) \<rparr>"

definition response_end :: "string \<Rightarrow> response \<Rightarrow> response" where
  "response_end content res = res \<lparr> body := Some content \<rparr>"

text \<open>
  \<open>HttpAdapter.json\<close> of the adapter that extends the \<open>Adapter\<close> class Inertia is
  written against (the one with \<open>getMethod\<close>, \<open>getUrl\<close> and \<open>html\<close>, exported by the
  package): no \<open>try\<close>.
\<close>

definition HttpAdapter_json ::
  "('d \<Rightarrow> error + string) \<Rightarrow> 'd \<Rightarrow> response \<Rightarrow> response \<times> error option" where
  "HttpAdapter_json stringify data res =
     (let res1 = response_setHeader ''Content-Type'' ''application/json'' res
      in case stringify data of
           Inl e \<Rightarrow> (res1, Some e)
         | Inr text \<Rightarrow> (response_end text res1, None))"

text \<open>
  \<open>HttpAdapter.json\<close> of the two other HTTP adapters (those with \<open>send\<close> and the
  \<open>statusCode\<close> accessors): \<open>try { ... } catch { ... }\<close>. The body of the handler is
  \<open>JSON.stringify({ error: "Failed to serialize JSON" })\<close>.
\<close>

definition HttpAdapter_json_catching ::
  "('d \<Rightarrow> error + string) \<Rightarrow> 'd \<Rightarrow> response \<Rightarrow> response \<times> error option" where
  "HttpAdapter_json_catching stringify data res =
     (let res1 = response_setHeader ''Content-Type'' ''application/json'' res
      in case stringify data of
           Inr text \<Rightarrow> (response_end text res1, None)
         | Inl _ \<Rightarrow>
             (response_end ''{\"error\":\"Failed to serialize JSON\"}''
                (res1 \<lparr> statusCode := 500 \<rparr>), None))"

section \<open>Example inputs\<close>

definition request_with :: "(InertiaHeaders \<times> string) list \<Rightarrow> string \<Rightarrow> request" where
  "request_with hs m = \<lparr> req_headers = map_of hs, req_method = m, req_url = ''/dashboard'' \<rparr>"

definition example_inertia :: "int inertia" where
  "example_inertia =
     \<lparr> sharedData = [(''theme'', Plain 1), (''user'', Func (Inr (Plain 7)))],
       shouldClearHistory = False, shouldEncryptHistory = False,
       assetsVersion = ''v1'', ssrEnabled = False \<rparr>"

definition example_props :: "int jsval obj" where
  "example_props =
     [(''theme'', Plain 2),
      (''posts'', OptionalProp (Inr (Plain 3))),
      (''x'', DeferProp (Inr (Plain 4)) ''g1''),
      (''y'', DeferProp (Inr (Plain 5)) ''g1''),
      (''z'', DeferProp (Inr (Plain 6)) ''g2''),
      (''m'', MergeProp (Inr (Plain 8)) True),
      (''flash'', AlwaysProp (Inr (Plain 9)))]"

text \<open>The page object of a first visit of \<open>Home\<close> with these props.\<close>

definition example_first_load :: "int pageObject" where
  "example_first_load =
     \<lparr> component = ''Home'', url = ''/dashboard'', version = ''v1'',
       props = [(''theme'', Plain 2), (''user'', Plain 7), (''m'', Plain 8), (''flash'', Plain 9)],
       clearHistory = False, encryptHistory = False,
       mergeProps = Some [''m''],
       deferredProps = Some [(''g1'', [''x'', ''y'']), (''g2'', [''z''])] \<rparr>"

text \<open>
  The page object of a partial reload of \<open>Home\<close> with neither an "only" nor an "except"
  header, and the one of a partial reload with \<open>only = posts,zz\<close>.
\<close>

definition example_partial_reload :: "int pageObject" where
  "example_partial_reload =
     \<lparr> component = ''Home'', url = ''/dashboard'', version = ''v1'',
       props = [(''theme'', Plain 2), (''user'', Plain 7), (''posts'', Plain 3),
                (''x'', Plain 4), (''y'', Plain 5), (''z'', Plain 6),
                (''m'', Plain 8), (''flash'', Plain 9)],
       clearHistory = False, encryptHistory = False,
       mergeProps = Some [''m''],
       deferredProps = None \<rparr>"


text \<open>
  A protocol request for \<open>Home\<close>, a fresh response, and a \<open>JSON.stringify\<close> that throws
  on the page object it is given, as it does on one that holds a circular reference.
  \<open>no_document\<close> stands for the two HTML renderers, which a protocol request never
  reaches.
\<close>

definition stringify_circular :: "int pageObject \<Rightarrow> error + string" where
  "stringify_circular data = Inl (Error ''Converting circular structure to JSON'')"

definition no_document :: "int pageObject \<Rightarrow> int call list \<times> error option" where
  "no_document pageObject = ([], None)"

definition fresh_response :: response where
  "fresh_response = \<lparr> statusCode = 200, headers = [], body = None \<rparr>"

section \<open>Properties of the object model\<close>

lemma split_str_nonempty: "split_str c s \<noteq> []"
  by (induction s) auto

lemma keys_map_of: "(k \<in> set (keys ob)) = (map_of ob k \<noteq> None)"
  by (simp add: keys_def map_of_eq_None_iff)

lemma map_of_insertIndex:
  "map_of (insertIndex n k v ob) a = (if a = k then Some v else map_of ob a)" if "map_of ob k = None"
  using that by (induction ob) (auto split: option.splits if_splits)

lemma keys_insertIndex: "set (keys (insertIndex n k v ob)) = insert k (set (keys ob))"
proof (induction ob)
  case Nil
  then show ?case by (simp add: keys_def)
next
  case (Cons e ob)
  obtain k' v' where e: "e = (k', v')" by (cases e)
  from Cons show ?case
    by (cases "arrayIndex k'") (simp_all add: e keys_def insert_commute)
qed

lemma distinct_insertIndex:
  "k \<notin> set (keys ob) \<Longrightarrow> distinct (keys ob) \<Longrightarrow> distinct (keys (insertIndex n k v ob))"
proof (induction ob)
  case Nil
  then show ?case by (simp add: keys_def)
next
  case (Cons e ob)
  obtain k' v' where e: "e = (k', v')" by (cases e)
  have "k' \<notin> insert k (set (keys ob))"
    using Cons.prems by (auto simp: e keys_def)
  then have a: "k' \<notin> set (keys (insertIndex n k v ob))"
    by (simp add: keys_insertIndex)
  have b: "distinct (keys (insertIndex n k v ob))"
    using Cons by (simp add: e keys_def)
  have c: "keys (x # xs) = fst x # keys xs" for x :: "string \<times> 'a" and xs
    by (simp add: keys_def)
  from a b Cons.prems show ?case
    by (cases "arrayIndex k'") (simp_all add: e c)
qed

lemma map_of_overwrite:
  "map_of (map (\<lambda>(k', v'). if k' = k then (k', v) else (k', v')) ob) a =
     (if a = k \<and> map_of ob k \<noteq> None then Some v else map_of ob a)"
  by (induction ob) auto

lemma keys_overwrite:
  "keys (map (\<lambda>(k', v'). if k' = k then (k', v) else (k', v')) ob) = keys ob"
  by (induction ob) (auto simp: keys_def)

lemma map_of_put: "map_of (put k v ob) a = (if a = k then Some v else map_of ob a)"
proof (cases "hasOwn ob k")
  case True
  then show ?thesis
    by (auto simp: put_def map_of_overwrite hasOwn_def keys_map_of)
next
  case False
  then have n: "map_of ob k = None" by (simp add: hasOwn_def keys_map_of)
  show ?thesis
  proof (cases "arrayIndex k")
    case None
    with False n show ?thesis by (simp add: put_def map_add_def split: option.splits)
  next
    case (Some m)
    with False n show ?thesis by (simp add: put_def map_of_insertIndex)
  qed
qed

lemma keys_put: "set (keys (put k v ob)) = insert k (set (keys ob))"
proof -
  have "(a \<in> set (keys (put k v ob))) = (a \<in> insert k (set (keys ob)))" for a
    by (simp add: keys_map_of map_of_put)
  then show ?thesis by blast
qed

lemma distinct_put: "distinct (keys ob) \<Longrightarrow> distinct (keys (put k v ob))"
proof (cases "hasOwn ob k")
  case True
  assume "distinct (keys ob)"
  with True show ?thesis by (simp add: put_def keys_overwrite)
next
  case False
  assume d: "distinct (keys ob)"
  show ?thesis
  proof (cases "arrayIndex k")
    case None
    with False d show ?thesis by (simp add: put_def hasOwn_def) (simp add: keys_def)
  next
    case (Some m)
    with False d show ?thesis by (simp add: put_def hasOwn_def distinct_insertIndex)
  qed
qed

lemma map_of_fold_put:
  "map_of (fold (\<lambda>(k, v). put k v) es ob) a =
     (case map_of (rev es) a of Some v \<Rightarrow> Some v | None \<Rightarrow> map_of ob a)"
proof (induction es arbitrary: ob)
  case Nil
  then show ?case by simp
next
  case (Cons e es)
  obtain k v where e: "e = (k, v)" by (cases e)
  show ?case
    by (simp add: e Cons map_of_put map_add_def split: option.splits)
qed

lemma distinct_fold_put:
  "distinct (keys ob) \<Longrightarrow> distinct (keys (fold (\<lambda>(k, v). put k v) es ob))"
  by (induction es arbitrary: ob) (auto simp: distinct_put)

lemma map_of_rev_distinct: "distinct (map fst es) \<Longrightarrow> map_of (rev es) a = map_of es a"
proof (induction es)
  case Nil
  then show ?case by simp
next
  case (Cons e es)
  obtain k v where e: "e = (k, v)" by (cases e)
  from Cons.prems have "map_of es k = None"
    by (simp add: e map_of_eq_None_iff)
  with Cons show ?case by (simp add: e map_add_def split: option.splits)
qed

lemma map_of_delete: "map_of (delete k ob) a = (if a = k then None else map_of ob a)"
  by (induction ob) (auto simp: delete_def)

lemma distinct_delete: "distinct (keys ob) \<Longrightarrow> distinct (keys (delete k ob))"
  by (simp add: delete_def keys_def distinct_map_filter)

lemma map_of_fold_delete:
  "map_of (fold delete ks ob) a = (if a \<in> set ks then None else map_of ob a)"
  by (induction ks arbitrary: ob) (auto simp: map_of_delete)

lemma distinct_fold_delete: "distinct (keys ob) \<Longrightarrow> distinct (keys (fold delete ks ob))"
  by (induction ks arbitrary: ob) (auto simp: distinct_delete)

section \<open>Properties of the filter and the resolver\<close>

lemma map_of_filter_distinct:
  "distinct (map fst es) \<Longrightarrow>
   map_of (filter (\<lambda>(k, v). P v) es) a =
     (case map_of es a of Some v \<Rightarrow> if P v then Some v else None | None \<Rightarrow> None)"
proof (induction es)
  case Nil
  then show ?case by simp
next
  case (Cons e es)
  obtain k v where e: "e = (k, v)" by (cases e)
  from Cons.prems have "map_of es k = None"
    by (simp add: e map_of_eq_None_iff)
  with Cons show ?case by (auto simp: e split: option.splits)
qed

lemma map_of_fromEntries:
  "distinct (map fst es) \<Longrightarrow> map_of (fromEntries es) a = map_of es a"
  by (simp add: fromEntries_def map_of_fold_put map_of_rev_distinct split: option.splits)

lemma distinct_fromEntries: "distinct (keys (fromEntries es))"
  using distinct_fold_put [of "[]" es] by (simp add: fromEntries_def keys_def)

lemma distinct_spread: "distinct (keys (spread a b))"
proof -
  have "distinct (keys (fold (\<lambda>(k, v). put k v) (entries a) []))"
    using distinct_fold_put [of "[]" "entries a"] by (simp add: keys_def)
  then show ?thesis by (simp add: spread_def distinct_fold_put)
qed

lemma map_of_spread:
  "map_of (spread a b) k =
     (case map_of (rev b) k of Some v \<Rightarrow> Some v | None \<Rightarrow> map_of (rev a) k)"
  by (simp add: spread_def entries_def map_of_fold_put split: option.splits)

lemma get_entry: "distinct (keys ps) \<Longrightarrow> (k, v) \<in> set ps \<Longrightarrow> get ps k = v"
  by (simp add: get_def keys_def)

lemma map_of_forceAlways_aux:
  assumes "distinct (keys ps)" and "set es \<subseteq> set ps"
  shows "map_of (fold (\<lambda>(key, value) newProps.
             if isAlwaysProp value then put key (get ps key) newProps else newProps) es n) a
         = (if \<exists>v. (a, v) \<in> set es \<and> isAlwaysProp v then map_of ps a else map_of n a)"
  using assms(2)
proof (induction es arbitrary: n)
  case Nil
  then show ?case by simp
next
  case (Cons e es)
  obtain k v where e: "e = (k, v)" by (cases e)
  from Cons.prems have mem: "(k, v) \<in> set ps" and sub: "set es \<subseteq> set ps"
    by (simp_all add: e)
  from assms(1) mem have g: "get ps k = v" and m: "map_of ps k = Some v"
    by (simp_all add: get_entry keys_def)
  have uniq: "v' = v" if "(k, v') \<in> set ps" for v'
    using that assms(1) m by (simp add: keys_def)
  show ?case
  proof (cases "isAlwaysProp v")
    case True
    with Cons.IH[OF sub] g m show ?thesis
      by (auto simp: e map_of_put)
  next
    case False
    with Cons.IH[OF sub] sub uniq show ?thesis
      by (auto simp: e)
  qed
qed

lemma map_of_forceAlways:
  "distinct (keys ps) \<Longrightarrow>
   map_of (forceAlways ps n) a
     = (if \<exists>v. map_of ps a = Some v \<and> isAlwaysProp v then map_of ps a else map_of n a)"
  by (auto simp: forceAlways_def entries_def map_of_forceAlways_aux keys_def
           dest: map_of_SomeD)

lemma distinct_forceAlways: "distinct (keys n) \<Longrightarrow> distinct (keys (forceAlways ps n))"
proof -
  have "distinct (keys n) \<Longrightarrow> distinct (keys (fold (\<lambda>(key, value) newProps.
             if isAlwaysProp value then put key (get ps key) newProps else newProps) es n))"
    for es
    by (induction es arbitrary: n) (auto simp: distinct_put)
  then show "distinct (keys n) \<Longrightarrow> distinct (keys (forceAlways ps n))"
    by (simp add: forceAlways_def)
qed

lemma map_of_only:
  "map_of (fold (\<lambda>key newProps. put key (get ps key) newProps) ks n) a
     = (if a \<in> set ks then Some (get ps a) else map_of n a)"
  by (induction ks arbitrary: n) (auto simp: map_of_put)

lemma distinct_only:
  "distinct (keys n) \<Longrightarrow>
   distinct (keys (fold (\<lambda>key newProps. put key (get ps key) newProps) ks n))"
  by (induction ks arbitrary: n) (auto simp: distinct_put)

lemma pick_not_partial:
  "\<not> isPartial req c \<Longrightarrow>
   pickPropsToResolve req c ps =
     Inr (forceAlways ps (fromEntries (filter (\<lambda>(_, value). \<not> ignoreFirstLoad value) ps)))"
  by (simp add: pickPropsToResolve_def Let_def entries_def)

lemma pick_partial:
  "isPartial req c \<Longrightarrow>
   pickPropsToResolve req c ps =
     (if truthy (getHeader req PartialOnly) then
        (let only = fold (\<lambda>key newProps. put key (get ps key) newProps) (onlyKeys req) []
         in if truthy (getHeader req PartialExcept)
            then Inr (forceAlways ps (fold delete (exceptKeys req) only))
            else Inr (forceAlways ps only))
      else if truthy (getHeader req PartialExcept)
           then Inr (forceAlways (fold delete (exceptKeys req) ps) (fold delete (exceptKeys req) ps))
           else Inr (forceAlways ps ps))"
  by (auto simp: pickPropsToResolve_def Let_def resolveOnly_def resolveExcept_def
        onlyKeys_def exceptKeys_def truthy_def split: option.splits)

lemma pick_total: "\<exists>R. pickPropsToResolve req c ps = Inr R"
  by (cases "isPartial req c") (auto simp: pick_not_partial pick_partial Let_def)

lemma pick_distinct:
  "distinct (keys ps) \<Longrightarrow> pickPropsToResolve req c ps = Inr R \<Longrightarrow> distinct (keys R)"
  by (cases "isPartial req c")
     (auto simp: pick_not_partial pick_partial Let_def distinct_forceAlways distinct_fromEntries
        distinct_fold_delete distinct_only keys_def[of "[]"] split: if_splits)

lemma ignoreFirstLoad_iff:
  "ignoreFirstLoad v = ((\<exists>cb. v = OptionalProp cb) \<or> (\<exists>cb g. v = DeferProp cb g))"
  by (cases v) auto

lemma pick_not_partial_map:
  assumes "\<not> isPartial req c" and "distinct (keys ps)" and "pickPropsToResolve req c ps = Inr R"
  shows "map_of R k = (case map_of ps k of Some v \<Rightarrow> if ignoreFirstLoad v then None else Some v
                       | None \<Rightarrow> None)"
proof -
  have d: "distinct (map fst ps)" using assms(2) by (simp add: keys_def)
  have d': "distinct (map fst (filter (\<lambda>(_, value). \<not> ignoreFirstLoad value) ps))"
    using d by (simp add: distinct_map_filter)
  have a: "isAlwaysProp v \<Longrightarrow> \<not> ignoreFirstLoad v" for v :: "'a jsval"
    by (cases v) auto
  from assms(1,3) have R: "R = forceAlways ps (fromEntries (filter (\<lambda>(_, value). \<not> ignoreFirstLoad value) ps))"
    by (simp add: pick_not_partial)
  show ?thesis
    using a by (auto simp: R map_of_forceAlways[OF assms(2)] map_of_fromEntries[OF d']
        map_of_filter_distinct[OF d] split: option.splits)
qed

lemma pick_partial_map:
  assumes "isPartial req c" and "distinct (keys ps)" and "pickPropsToResolve req c ps = Inr R"
  shows "map_of R k =
     (if truthy (getHeader req PartialOnly) then
        (if \<exists>v. map_of ps k = Some v \<and> isAlwaysProp v then map_of ps k
         else if truthy (getHeader req PartialExcept) \<and> k \<in> set (exceptKeys req) then None
         else if k \<in> set (onlyKeys req) then Some (get ps k) else None)
      else (if truthy (getHeader req PartialExcept) \<and> k \<in> set (exceptKeys req) then None
            else map_of ps k))"
proof -
  have d2: "distinct (keys (fold delete (exceptKeys req) ps))"
    using assms(2) by (rule distinct_fold_delete)
  from assms(1,3) show ?thesis
    by (auto simp: pick_partial Let_def map_of_forceAlways[OF assms(2)] map_of_forceAlways[OF d2]
        map_of_fold_delete map_of_only split: if_splits)
qed

lemma resolveProp_key: "resolveProp k v = Inr (k', r) \<Longrightarrow> k' = k"
  by (cases v) (auto simp: map_sum_def split: sum.splits)

lemma resolveEntry_key: "resolveEntry (k, v) = Inr (k', r) \<Longrightarrow> k' = k"
  by (cases v) (auto simp: map_sum_def split: sum.splits dest: resolveProp_key)

lemma promiseAll_Inr: "promiseAll ps = Inr xs \<Longrightarrow> ps = map Inr xs"
  by (induction ps arbitrary: xs) (auto split: sum.splits)


lemma promiseAll_ok: "\<forall>p \<in> set ps. \<exists>x. p = Inr x \<Longrightarrow> \<exists>xs. promiseAll ps = Inr xs"
  by (induction ps) (auto split: sum.splits)

lemma resolved_keys: "map resolveEntry ps = map Inr rs \<Longrightarrow> map fst rs = map fst ps"
proof (induction ps arbitrary: rs)
  case Nil
  then show ?case by simp
next
  case (Cons p ps)
  from Cons.prems obtain r rs' where rs: "rs = r # rs'" by (cases rs) auto
  obtain k v where p: "p = (k, v)" by (cases p)
  obtain k' x where r: "r = (k', x)" by (cases r)
  from Cons.prems have "resolveEntry (k, v) = Inr (k', x)" by (simp add: rs p r)
  then have "k' = k" by (rule resolveEntry_key)
  with Cons show ?case by (simp add: rs p r)
qed

lemma resolved_value:
  "map resolveEntry ps = map Inr rs \<Longrightarrow> distinct (map fst ps) \<Longrightarrow> map_of ps k = Some v \<Longrightarrow>
   \<exists>r. resolveEntry (k, v) = Inr (k, r) \<and> map_of rs k = Some r"
proof (induction ps arbitrary: rs)
  case Nil
  then show ?case by simp
next
  case (Cons p ps)
  from Cons.prems obtain r rs' where rs: "rs = r # rs'" by (cases rs) auto
  obtain k0 v0 where p: "p = (k0, v0)" by (cases p)
  obtain k' x where r: "r = (k', x)" by (cases r)
  from Cons.prems have e: "resolveEntry (k0, v0) = Inr (k', x)" by (simp add: rs p r)
  then have k': "k' = k0" by (rule resolveEntry_key)
  show ?case
  proof (cases "k = k0")
    case True
    with Cons.prems e k' show ?thesis by (simp add: rs p r)
  next
    case False
    with Cons.prems have "\<exists>r. resolveEntry (k, v) = Inr (k, r) \<and> map_of rs' k = Some r"
      by (intro Cons.IH) (simp_all add: rs p r)
    with False k' show ?thesis by (simp add: rs r)
  qed
qed

lemma resolvePageProps_Inr:
  assumes "resolvePageProps ps = Inr out" and "distinct (keys ps)"
  shows "hasOwn out k = hasOwn ps k"
    and "map_of ps k = Some v \<Longrightarrow> \<exists>r. resolveEntry (k, v) = Inr (k, r) \<and> map_of out k = Some r"
proof -
  from assms(1) obtain rs where rs: "promiseAll (map resolveEntry ps) = Inr rs"
    and out: "out = fromEntries rs"
    by (auto simp: resolvePageProps_def entries_def split: sum.splits)
  from rs have m: "map resolveEntry ps = map Inr rs" by (rule promiseAll_Inr)
  then have ks: "map fst rs = map fst ps" by (rule resolved_keys)
  with assms(2) have d: "distinct (map fst rs)" by (simp add: keys_def)
  have mo: "map_of out a = map_of rs a" for a
    using d by (simp add: out map_of_fromEntries)
  have "(map_of out k = None) = (map_of ps k = None)"
    by (simp add: mo map_of_eq_None_iff) (metis ks set_map)
  then show "hasOwn out k = hasOwn ps k"
    by (simp add: hasOwn_def keys_map_of)
  show "\<exists>r. resolveEntry (k, v) = Inr (k, r) \<and> map_of out k = Some r" if "map_of ps k = Some v"
    using resolved_value[OF m _ that] assms(2) by (simp add: mo keys_def)
qed


lemma resolvePageProps_ok:
  "\<forall>(k, v) \<in> set ps. \<exists>r. resolveEntry (k, v) = Inr r \<Longrightarrow> \<exists>out. resolvePageProps ps = Inr out"
proof -
  assume a: "\<forall>(k, v) \<in> set ps. \<exists>r. resolveEntry (k, v) = Inr r"
  then have "\<forall>p \<in> set (map resolveEntry ps). \<exists>x. p = Inr x" by auto
  then obtain xs where "promiseAll (map resolveEntry ps) = Inr xs"
    using promiseAll_ok by blast
  then show ?thesis by (simp add: resolvePageProps_def entries_def)
qed

lemma build_Inr:
  assumes "buildPageObject this req c pp = Inr page"
  obtains R where "pickPropsToResolve req c (spread (sharedData this) (orEmpty pp)) = Inr R"
    and "resolvePageProps R = Inr (props page)"
    and "distinct (keys R)"
    and "mergeProps page = resolveMergeProps req pp"
    and "deferredProps page = resolveDeferredProps req c pp"
proof -
  from assms obtain R out where R: "pickPropsToResolve req c (spread (sharedData this) (orEmpty pp)) = Inr R"
    and out: "resolvePageProps R = Inr out"
    and page: "page = \<lparr> component = c,
                     url = (if getUrl req = [] then ''/'' else getUrl req),
                     version = assetsVersion this,
                     props = out,
                     clearHistory = shouldClearHistory this,
                     encryptHistory = shouldEncryptHistory this,
                     mergeProps = resolveMergeProps req pp,
                     deferredProps = resolveDeferredProps req c pp \<rparr>"
    by (auto simp: buildPageObject_def split: sum.splits)
  have "distinct (keys R)" using distinct_spread R by (rule pick_distinct)
  with R out page that show ?thesis by simp
qed


lemma hasOwn_map_of: "hasOwn ob k = (map_of ob k \<noteq> None)"
  by (simp add: hasOwn_def keys_map_of)

lemma resolveEntry_wrapper:
  "resolveEntry (k, OptionalProp cb) = Inr (k, r) \<longleftrightarrow> cb = Inr r"
  "resolveEntry (k, DeferProp cb g) = Inr (k, r) \<longleftrightarrow> cb = Inr r"
  by (cases cb; simp)+

lemma exceptKeys_falsy: "\<not> truthy (getHeader req PartialExcept) \<Longrightarrow> exceptKeys req = []"
  by (auto simp: truthy_def exceptKeys_def commaList_def split: option.splits)

lemma pick_partial_map':
  assumes "isPartial req c" and "distinct (keys ps)" and "pickPropsToResolve req c ps = Inr R"
  shows "map_of R k =
     (if truthy (getHeader req PartialOnly) then
        (if \<exists>cb. map_of ps k = Some (AlwaysProp cb) then map_of ps k
         else if k \<in> set (exceptKeys req) then None
         else if k \<in> set (onlyKeys req) then Some (get ps k) else None)
      else (if k \<in> set (exceptKeys req) then None else map_of ps k))"
proof -
  have a: "(\<exists>v. map_of ps k = Some v \<and> isAlwaysProp v) = (\<exists>cb. map_of ps k = Some (AlwaysProp cb))"
  proof (cases "map_of ps k")
    case None
    then show ?thesis by simp
  next
    case (Some v)
    then show ?thesis by (cases v) auto
  qed
  show ?thesis
    using pick_partial_map[OF assms, of k] exceptKeys_falsy[of req]
    by (simp only: a) (auto split: if_splits)
qed

lemma pick_value:
  assumes "distinct (keys ps)" and "pickPropsToResolve req c ps = Inr R"
    and "map_of R k = Some v"
  shows "v = get ps k"
proof (cases "isPartial req c")
  case True
  from pick_partial_map'[OF True assms(1,2), of k] assms(3) show ?thesis
    by (auto simp: get_def split: if_splits option.splits)
next
  case False
  from pick_not_partial_map[OF False assms(1,2), of k] assms(3) show ?thesis
    by (auto simp: get_def split: option.splits if_splits)
qed






lemma shouldMerge_iff: "shouldMerge v = (\<exists>cb. v = MergeProp cb True)"
  by (cases v) auto

lemma resolveMergeProps_eq:
  "case resolveMergeProps req pp of
     None \<Rightarrow> \<forall>key cb. (key, MergeProp cb True) \<in> set (orEmpty pp) \<longrightarrow> key \<in> set (resetKeys req)
   | Some listing \<Rightarrow>
       listing \<noteq> []
     \<and> (\<forall>key. (key \<in> set listing)
               = ((\<exists>cb. (key, MergeProp cb True) \<in> set (orEmpty pp)) \<and> key \<notin> set (resetKeys req)))"
proof -
  have r: "commaList (case getHeader req Reset of None \<Rightarrow> [] | Some h \<Rightarrow> if h = [] then [] else h)
             = resetKeys req"
    by (simp add: resetKeys_def split: option.splits)
  let ?l = "filter (\<lambda>key. key \<notin> set (resetKeys req))
              (map fst (filter (\<lambda>(_, value). shouldMerge value) (orEmpty pp)))"
  have mem: "(key \<in> set ?l)
               = ((\<exists>cb. (key, MergeProp cb True) \<in> set (orEmpty pp)) \<and> key \<notin> set (resetKeys req))"
    for key
    by (force simp: shouldMerge_iff)
  have eq: "resolveMergeProps req pp = (if ?l = [] then None else Some ?l)"
    by (simp add: resolveMergeProps_def Let_def r entries_def)
  show ?thesis
  proof (cases "?l = []")
    case True
    then have "\<forall>key. key \<notin> set ?l" by simp
    then have "\<forall>key cb. (key, MergeProp cb True) \<in> set (orEmpty pp) \<longrightarrow> key \<in> set (resetKeys req)"
      unfolding mem by blast
    with True eq show ?thesis by simp
  next
    case False
    with eq mem show ?thesis by simp
  qed
qed


lemma buildPageObject_succeeds:
  assumes "\<forall>key v. map_of (spread (sharedData this) (orEmpty pageProps)) key = Some v
             \<longrightarrow> (\<exists>r. resolveEntry (key, v) = Inr r)"
  shows "\<exists>page. buildPageObject this req name pageProps = Inr page"
proof -
  let ?ps = "spread (sharedData this) (orEmpty pageProps)"
  obtain R where R: "pickPropsToResolve req name ?ps = Inr R"
    using pick_total by blast
  have d: "distinct (keys R)" using distinct_spread R by (rule pick_distinct)
  have "\<exists>r. resolveEntry (k, v) = Inr r" if "(k, v) \<in> set R" for k v
  proof -
    from that d have mR: "map_of R k = Some v" by (simp add: keys_def)
    have v: "v = get ?ps k" using distinct_spread R mR by (rule pick_value)
    show ?thesis
    proof (cases "map_of ?ps k")
      case None
      with v show ?thesis by (simp add: get_def)
    next
      case (Some w)
      with v assms show ?thesis by (simp add: get_def)
    qed
  qed
  then have "\<forall>(k, v) \<in> set R. \<exists>r. resolveEntry (k, v) = Inr r" by blast
  then obtain out where "resolvePageProps R = Inr out"
    using resolvePageProps_ok by blast
  with R show ?thesis by (simp add: buildPageObject_def)
qed

lemma share_overrides:
  "distinct (keys (sharedData this)) \<Longrightarrow> distinct (keys (data :: 'v jsval obj)) \<Longrightarrow>
   map_of (sharedData (share data this)) k
     = (case map_of data k of Some v \<Rightarrow> Some v | None \<Rightarrow> map_of (sharedData this) k)"
  by (simp add: share_def map_of_spread map_of_rev_distinct keys_def split: option.splits)

section \<open>First load and partial reloads\<close>

text \<open>
  C1. On a request that is not a partial request for the rendered component, an entry
  of the merged candidate set (shared data overlaid with the per-call props) is a key of
  the resolved props of the page object exactly when it is neither an Optional nor a
  Deferred wrapper: those are absent, and every other entry (Always, Merge, plain value
  or plain function) is present. By \<open>buildPageObject_succeeds\<close> the page object
  exists whenever no callback of the candidate set throws.
\<close>

theorem first_load_props:
  assumes "\<not> isPartial req name"
    and "buildPageObject this req name pageProps = Inr page"
    and "map_of (spread (sharedData this) (orEmpty pageProps)) key = Some value"
  shows "hasOwn (props page) key
           = (\<not> ((\<exists>cb. value = OptionalProp cb) \<or> (\<exists>cb g. value = DeferProp cb g)))"
proof -
  from assms(2) obtain R
    where R: "pickPropsToResolve req name (spread (sharedData this) (orEmpty pageProps)) = Inr R"
      and out: "resolvePageProps R = Inr (props page)" and d: "distinct (keys R)"
    by (rule build_Inr)
  have "hasOwn (props page) key = hasOwn R key"
    using out d by (rule resolvePageProps_Inr(1))
  also have "\<dots> = (\<not> ignoreFirstLoad value)"
    using pick_not_partial_map[OF assms(1) distinct_spread R, of key] assms(3)
    by (simp add: hasOwn_map_of)
  finally show ?thesis by (simp add: ignoreFirstLoad_iff)
qed

theorem first_load_props_witness:
  "buildPageObject example_inertia (request_with [] ''GET'') ''Home'' (Some example_props)
     = Inr example_first_load
   \<and> \<not> hasOwn (props example_first_load) ''posts''
   \<and> \<not> hasOwn (props example_first_load) ''x''
   \<and> hasOwn (props example_first_load) ''m''"
proof -
  let ?req = "request_with [] ''GET''"
  have p: "\<not> isPartial ?req ''Home''" by code_simp
  have b: "buildPageObject example_inertia ?req ''Home'' (Some example_props)
             = Inr example_first_load"
    by code_simp
  have m1: "map_of (spread (sharedData example_inertia) (orEmpty (Some example_props))) ''posts''
              = Some (OptionalProp (Inr (Plain 3)))" by code_simp
  have m2: "map_of (spread (sharedData example_inertia) (orEmpty (Some example_props))) ''x''
              = Some (DeferProp (Inr (Plain 4)) ''g1'')" by code_simp
  have m3: "map_of (spread (sharedData example_inertia) (orEmpty (Some example_props))) ''m''
              = Some (MergeProp (Inr (Plain 8)) True)" by code_simp
  from first_load_props[OF p b m1] first_load_props[OF p b m2] first_load_props[OF p b m3] b
  show ?thesis by simp
qed

text \<open>
  C3. When the partial-component header is present but names another component, the
  filter does not look at the "only" and "except" headers (its result is the same for
  every request with the same partial-component header), and the first-load rule
  applies: exactly the Optional and Deferred entries of the candidate set are dropped.
\<close>

theorem mismatched_component_is_first_load:
  assumes "getHeader req PartialComponent = Some other" and "other \<noteq> name"
  shows "(\<forall>req'. getHeader req' PartialComponent = getHeader req PartialComponent \<longrightarrow>
            pickPropsToResolve req' name candidates = pickPropsToResolve req name candidates)
       \<and> (\<forall>page key v.
            buildPageObject this req name pageProps = Inr page \<and>
            map_of (spread (sharedData this) (orEmpty pageProps)) key = Some v \<longrightarrow>
            hasOwn (props page) key
              = (\<not> ((\<exists>cb. v = OptionalProp cb) \<or> (\<exists>cb g. v = DeferProp cb g))))"
proof -
  from assms have np: "\<not> isPartial req name" by (simp add: isPartial_def)
  have "pickPropsToResolve req' name candidates = pickPropsToResolve req name candidates"
    if "getHeader req' PartialComponent = getHeader req PartialComponent" for req'
  proof -
    from that np have "\<not> isPartial req' name" by (simp add: isPartial_def)
    with np show ?thesis by (simp add: pick_not_partial)
  qed
  moreover have "hasOwn (props page) key
              = (\<not> ((\<exists>cb. v = OptionalProp cb) \<or> (\<exists>cb g. v = DeferProp cb g)))"
    if "buildPageObject this req name pageProps = Inr page"
      and "map_of (spread (sharedData this) (orEmpty pageProps)) key = Some v"
    for page key v
  proof -
    from that(1) obtain R
      where R: "pickPropsToResolve req name (spread (sharedData this) (orEmpty pageProps)) = Inr R"
        and out: "resolvePageProps R = Inr (props page)" and d: "distinct (keys R)"
      by (rule build_Inr)
    have "hasOwn (props page) key = hasOwn R key"
      using out d by (rule resolvePageProps_Inr(1))
    also have "\<dots> = (\<not> ignoreFirstLoad v)"
      using pick_not_partial_map[OF np distinct_spread R, of key] that(2)
      by (simp add: hasOwn_map_of)
    finally show ?thesis by (simp add: ignoreFirstLoad_iff)
  qed
  ultimately show ?thesis by blast
qed

theorem mismatched_component_is_first_load_witness:
  "pickPropsToResolve (request_with [(PartialComponent, ''Other'')] ''GET'') ''Home''
       (spread (sharedData example_inertia) example_props)
     = pickPropsToResolve
         (request_with [(PartialComponent, ''Other''), (PartialOnly, ''posts''),
                        (PartialExcept, ''theme'')] ''GET'')
         ''Home'' (spread (sharedData example_inertia) example_props)
   \<and> buildPageObject example_inertia
         (request_with [(PartialComponent, ''Other''), (PartialOnly, ''posts''),
                        (PartialExcept, ''theme'')] ''GET'')
         ''Home'' (Some example_props) = Inr example_first_load
   \<and> \<not> hasOwn (props example_first_load) ''posts''
   \<and> hasOwn (props example_first_load) ''theme''"
proof -
  let ?req = "request_with [(PartialComponent, ''Other''), (PartialOnly, ''posts''),
                        (PartialExcept, ''theme'')] ''GET''"
  let ?req' = "request_with [(PartialComponent, ''Other'')] ''GET''"
  have h: "getHeader ?req PartialComponent = Some ''Other''" by code_simp
  have n: "''Other'' \<noteq> ''Home''" by simp
  have h': "getHeader ?req' PartialComponent = getHeader ?req PartialComponent" by code_simp
  have b: "buildPageObject example_inertia ?req ''Home'' (Some example_props)
             = Inr example_first_load"
    by code_simp
  have m1: "map_of (spread (sharedData example_inertia) (orEmpty (Some example_props))) ''posts''
              = Some (OptionalProp (Inr (Plain 3)))" by code_simp
  have m2: "map_of (spread (sharedData example_inertia) (orEmpty (Some example_props))) ''theme''
              = Some (Plain 2)" by code_simp
  note t = mismatched_component_is_first_load
             [OF h n, of "spread (sharedData example_inertia) example_props"
                example_inertia "Some example_props"]
  from t h' have "pickPropsToResolve ?req' ''Home'' (spread (sharedData example_inertia) example_props)
     = pickPropsToResolve ?req ''Home'' (spread (sharedData example_inertia) example_props)"
    by blast
  moreover from t b m1 have "\<not> hasOwn (props example_first_load) ''posts''" by blast
  moreover from t b m2 have "hasOwn (props example_first_load) ''theme''" by blast
  ultimately show ?thesis using b by simp
qed

text \<open>
  C9. On a partial request for the rendered component with neither an "only" nor an
  "except" header (absent or empty), every entry of the candidate set is a key of the
  resolved props, Optional and Deferred wrappers included; for those the callback has
  been invoked and the value in the output is the value it returned.
\<close>

theorem partial_reload_keeps_optional_and_deferred:
  assumes "isPartial req name"
    and "\<not> truthy (getHeader req PartialOnly)" and "\<not> truthy (getHeader req PartialExcept)"
    and "buildPageObject this req name pageProps = Inr page"
    and "map_of (spread (sharedData this) (orEmpty pageProps)) key = Some v"
  shows "hasOwn (props page) key
       \<and> (\<forall>cb g. v = OptionalProp cb \<or> v = DeferProp cb g \<longrightarrow>
             (\<exists>r. cb = Inr r \<and> map_of (props page) key = Some r))"
proof -
  from assms(4) obtain R
    where R: "pickPropsToResolve req name (spread (sharedData this) (orEmpty pageProps)) = Inr R"
      and out: "resolvePageProps R = Inr (props page)" and d: "distinct (keys R)"
    by (rule build_Inr)
  have "map_of R key = Some v"
    using pick_partial_map'[OF assms(1) distinct_spread R, of key] assms(2,3,5)
    by (simp add: exceptKeys_falsy)
  with out d obtain r where r: "resolveEntry (key, v) = Inr (key, r)"
    and m: "map_of (props page) key = Some r"
    using resolvePageProps_Inr(2) by blast
  from m have "hasOwn (props page) key" by (simp add: hasOwn_map_of)
  moreover have "\<exists>r. cb = Inr r \<and> map_of (props page) key = Some r"
    if "v = OptionalProp cb \<or> v = DeferProp cb g" for cb g
    using that r m by (cases cb) auto
  ultimately show ?thesis by blast
qed

theorem partial_reload_keeps_optional_and_deferred_witness:
  "buildPageObject example_inertia (request_with [(PartialComponent, ''Home'')] ''GET'') ''Home''
       (Some example_props) = Inr example_partial_reload
   \<and> map_of (props example_partial_reload) ''posts'' = Some (Plain 3)
   \<and> map_of (props example_partial_reload) ''x'' = Some (Plain 4)"
proof -
  let ?req = "request_with [(PartialComponent, ''Home'')] ''GET''"
  have p: "isPartial ?req ''Home''" by code_simp
  have o: "\<not> truthy (getHeader ?req PartialOnly)" by code_simp
  have e: "\<not> truthy (getHeader ?req PartialExcept)" by code_simp
  have b: "buildPageObject example_inertia ?req ''Home'' (Some example_props)
             = Inr example_partial_reload"
    by code_simp
  have m1: "map_of (spread (sharedData example_inertia) (orEmpty (Some example_props))) ''posts''
              = Some (OptionalProp (Inr (Plain 3)))" by code_simp
  have m2: "map_of (spread (sharedData example_inertia) (orEmpty (Some example_props))) ''x''
              = Some (DeferProp (Inr (Plain 4)) ''g1'')" by code_simp
  from partial_reload_keeps_optional_and_deferred[OF p o e b m1]
       partial_reload_keeps_optional_and_deferred[OF p o e b m2] b
  show ?thesis by auto
qed




section \<open>Shared data and per-call props\<close>

text \<open>
  C4. The candidate set is the shared data overlaid with the per-call props: as a
  mapping it is \<open>shared ++ per-call\<close>, so on a collision the per-call entry wins, and
  whenever such a key is in the resolved props of the page object, its value there is
  the resolved per-call value.
\<close>

theorem per_call_props_override_shared:
  assumes "distinct (keys (sharedData this))" and "distinct (keys pageProps)"
  shows "map_of (spread (sharedData this) pageProps) = map_of (sharedData this) ++ map_of pageProps
       \<and> (\<forall>req name page key v.
            buildPageObject this req name (Some pageProps) = Inr page \<and>
            map_of pageProps key = Some v \<and> hasOwn (props page) key \<longrightarrow>
            (\<exists>r. resolveEntry (key, v) = Inr (key, r) \<and> map_of (props page) key = Some r))"
proof -
  have d1: "distinct (map fst (sharedData this))" and d2: "distinct (map fst pageProps)"
    using assms by (simp_all add: keys_def)
  have sp: "map_of (spread (sharedData this) pageProps) k
              = (map_of (sharedData this) ++ map_of pageProps) k" for k
    by (simp add: map_of_spread map_of_rev_distinct[OF d1] map_of_rev_distinct[OF d2] map_add_def
          split: option.splits)
  have "\<exists>r. resolveEntry (key, v) = Inr (key, r) \<and> map_of (props page) key = Some r"
    if b: "buildPageObject this req name (Some pageProps) = Inr page"
      and m: "map_of pageProps key = Some v" and h: "hasOwn (props page) key"
    for req name page key v
  proof -
    from b obtain R
      where R: "pickPropsToResolve req name (spread (sharedData this) (orEmpty (Some pageProps))) = Inr R"
        and out: "resolvePageProps R = Inr (props page)" and d: "distinct (keys R)"
      by (rule build_Inr)
    from h have "hasOwn R key" using resolvePageProps_Inr(1)[OF out d] by simp
    then obtain v' where v': "map_of R key = Some v'" by (auto simp: hasOwn_map_of)
    have "v' = get (spread (sharedData this) (orEmpty (Some pageProps))) key"
      using distinct_spread R v' by (rule pick_value)
    also have "\<dots> = v" using m by (simp add: get_def sp orEmpty_def)
    finally have "map_of R key = Some v" using v' by simp
    then show ?thesis using resolvePageProps_Inr(2)[OF out d] by blast
  qed
  with sp show ?thesis by blast
qed

theorem per_call_props_override_shared_witness:
  "map_of (sharedData example_inertia) ''theme'' = Some (Plain 1)
   \<and> map_of example_props ''theme'' = Some (Plain 2)
   \<and> buildPageObject example_inertia (request_with [] ''GET'') ''Home'' (Some example_props)
       = Inr example_first_load
   \<and> map_of (props example_first_load) ''theme'' = Some (Plain 2)"
proof -
  have d1: "distinct (keys (sharedData example_inertia))" by code_simp
  have d2: "distinct (keys example_props)" by code_simp
  have b: "buildPageObject example_inertia (request_with [] ''GET'') ''Home'' (Some example_props)
             = Inr example_first_load" by code_simp
  have s: "map_of (sharedData example_inertia) ''theme'' = Some (Plain 1)" by code_simp
  have m: "map_of example_props ''theme'' = Some (Plain 2)" by code_simp
  have h: "hasOwn (props example_first_load) ''theme''" by code_simp
  from per_call_props_override_shared[OF d1 d2] b m h
  have "\<exists>r. resolveEntry (''theme'', Plain 2) = Inr (''theme'', r)
          \<and> map_of (props example_first_load) ''theme'' = Some r"
    by blast
  then show ?thesis using b s m by auto
qed

section \<open>The deferred-props and merge-props listings\<close>



text \<open>
  C6. The \<open>mergeProps\<close> listing of the page object holds exactly the keys of the Merge
  entries of the per-call props whose merge flag is set and which the "reset" header
  does not name; the field is omitted when there is no such key (so a single Merge prop
  \<open>m\<close> with \<open>reset = m\<close> gives no field).
\<close>

theorem merge_props_listing:
  assumes "buildPageObject this req name pageProps = Inr page"
  shows "case mergeProps page of
           None \<Rightarrow>
             \<forall>key cb. (key, MergeProp cb True) \<in> set (orEmpty pageProps)
                       \<longrightarrow> key \<in> set (resetKeys req)
         | Some listing \<Rightarrow>
             listing \<noteq> []
           \<and> (\<forall>key. (key \<in> set listing)
                     = ((\<exists>cb. (key, MergeProp cb True) \<in> set (orEmpty pageProps))
                        \<and> key \<notin> set (resetKeys req)))"
proof -
  from assms have "mergeProps page = resolveMergeProps req pageProps"
    by (rule build_Inr)
  with resolveMergeProps_eq[where req = req and pp = pageProps] show ?thesis by simp
qed

theorem merge_props_listing_witness:
  "buildPageObject example_inertia (request_with [] ''GET'') ''Home'' (Some example_props)
     = Inr example_first_load
   \<and> mergeProps example_first_load = Some [''m'']
   \<and> ''m'' \<notin> set (resetKeys (request_with [] ''GET''))
   \<and> buildPageObject example_inertia (request_with [(Reset, ''m'')] ''GET'') ''Home''
       (Some example_props) = Inr (example_first_load \<lparr> mergeProps := None \<rparr>)
   \<and> ''m'' \<in> set (resetKeys (request_with [(Reset, ''m'')] ''GET''))"
proof -
  let ?req = "request_with [] ''GET''"
  let ?req' = "request_with [(Reset, ''m'')] ''GET''"
  have b: "buildPageObject example_inertia ?req ''Home'' (Some example_props)
             = Inr example_first_load" by code_simp
  have b': "buildPageObject example_inertia ?req' ''Home'' (Some example_props)
             = Inr (example_first_load \<lparr> mergeProps := None \<rparr>)" by code_simp
  have l: "mergeProps example_first_load = Some [''m'']" by code_simp
  have e: "(''m'', MergeProp (Inr (Plain 8)) True) \<in> set (orEmpty (Some example_props))"
    by code_simp
  note t = merge_props_listing[OF b, unfolded l option.case]
  then have "(''m'' \<in> set [''m''])
               = ((\<exists>cb. (''m'', MergeProp cb True) \<in> set (orEmpty (Some example_props)))
                  \<and> ''m'' \<notin> set (resetKeys ?req))"
    by blast
  then have n: "''m'' \<notin> set (resetKeys ?req)" by simp
  have "mergeProps (example_first_load \<lparr> mergeProps := None \<rparr>) = None" by simp
  note t' = merge_props_listing[OF b', unfolded this option.case]
  with e have "''m'' \<in> set (resetKeys ?req')" by blast
  with n b b' l show ?thesis by simp
qed

section \<open>Redirects\<close>

text \<open>
  C7. A call of \<open>redirect\<close> with a bare, non-empty URL (default status) asks the adapter
  for status 302 when the request method is GET and for status 303 when the method is
  PUT, PATCH or DELETE. A call in which no URL is resolvable (an empty URL, or a status
  with a missing or empty URL) throws before any adapter call is made.
\<close>

theorem redirect_default_status:
  fixes req :: request and noUrl :: "'v call list \<times> error option"
  defines "noUrl \<equiv> ([], Some (Error ''Redirect URL is required''))"
  shows
  "(u \<noteq> [] \<and> getMethod req = ''GET'' \<longrightarrow>
      redirect req (Url u) t
        = ([SetHeader (Lit ''Vary'') (Hdr Inertia), Redirect 302 u] :: 'v call list, None))
   \<and> (u \<noteq> [] \<and> getMethod req \<in> {''PUT'', ''PATCH'', ''DELETE''} \<longrightarrow>
      redirect req (Url u) t
        = ([SetHeader (Lit ''Vary'') (Hdr Inertia), Redirect 303 u] :: 'v call list, None))
   \<and> redirect req (Url []) t = noUrl
   \<and> redirect req (Status n) None = noUrl
   \<and> redirect req (Status n) (Some []) = noUrl"
  by (auto simp: redirect_def noUrl_def)

theorem redirect_default_status_witness:
  "redirect (request_with [] ''GET'')
     (Url ''/home'') None
     = ([SetHeader (Lit ''Vary'') (Hdr Inertia), Redirect 302 ''/home''] :: unit call list, None)
   \<and> redirect (request_with [] ''PUT'')
     (Url ''/home'') None
     = ([SetHeader (Lit ''Vary'') (Hdr Inertia), Redirect 303 ''/home''] :: unit call list, None)"
  using redirect_default_status
          [where ?'v = unit, of "''/home''" "(request_with [] ''GET'')"
              None 0]
        redirect_default_status
          [where ?'v = unit, of "''/home''" "(request_with [] ''PUT'')"
              None 0]
  by (simp add: getMethod_def request_with_def)

text \<open>
  C10. A call of \<open>redirect\<close> that passes the status 302 explicitly, with a non-empty
  URL, asks the adapter for status 303 as well when the request method is PUT, PATCH or
  DELETE: the upgrade looks at the value of the status only.
\<close>

theorem redirect_explicit_302:
  assumes "u \<noteq> []" and "getMethod req \<in> {''PUT'', ''PATCH'', ''DELETE''}"
  shows "redirect req (Status 302) (Some u)
           = ([SetHeader (Lit ''Vary'') (Hdr Inertia), Redirect 303 u], None)"
  using assms by (auto simp: redirect_def)

theorem redirect_explicit_302_witness:
  "redirect (request_with [] ''DELETE'')
     (Status 302) (Some ''/posts'')
     = ([SetHeader (Lit ''Vary'') (Hdr Inertia), Redirect 303 ''/posts''] :: unit call list, None)"
  by (rule redirect_explicit_302) (simp_all add: getMethod_def request_with_def)

section \<open>Serialization failures\<close>

lemma render_protocol_request:
  "truthy (getHeader req Inertia) \<Longrightarrow> buildPageObject this req name pageProps = Inr page \<Longrightarrow>
   render renderOnServer renderView this req name pageProps
     = ([SetHeader (Hdr Inertia) (Lit ''true''), Json page], None)"
  by (simp add: render_def)

lemma HttpAdapter_json_throws:
  "stringify data = Inl e \<Longrightarrow>
   HttpAdapter_json stringify data res
     = (response_setHeader ''Content-Type'' ''application/json'' res, Some e)"
  by (simp add: HttpAdapter_json_def)

lemma HttpAdapter_json_catching_degrades:
  "stringify data = Inl e \<Longrightarrow>
   HttpAdapter_json_catching stringify data res
     = (response_end ''{\"error\":\"Failed to serialize JSON\"}''
          (response_setHeader ''Content-Type'' ''application/json'' res \<lparr> statusCode := 500 \<rparr>),
        None)"
  by (simp add: HttpAdapter_json_catching_def)

text \<open>
  C8. For a protocol request \<open>render\<close> hands the page object to the adapter's \<open>json\<close>
  as its last step, with no handler around the call. When \<open>JSON.stringify\<close> throws, the
  \<open>json\<close> of the adapter Inertia is written against sets the content type and lets the
  error escape: the status stays 200 and the response is not ended. The \<open>json\<close> of the
  two other HTTP adapters catches the error and answers with status 500 and the error
  body.
\<close>

theorem serialization_failure_escapes:
  "render no_document no_document example_inertia (request_with [(Inertia, ''true'')] ''GET'')
       ''Home'' (Some example_props)
     = ([SetHeader (Hdr Inertia) (Lit ''true''), Json example_first_load], None)
   \<and> HttpAdapter_json stringify_circular example_first_load fresh_response
     = (\<lparr> statusCode = 200, headers = [(''Content-Type'', ''application/json'')], body = None \<rparr>,
        Some (Error ''Converting circular structure to JSON''))
   \<and> HttpAdapter_json_catching stringify_circular example_first_load fresh_response
     = (\<lparr> statusCode = 500, headers = [(''Content-Type'', ''application/json'')],
          body = Some ''{\"error\":\"Failed to serialize JSON\"}'' \<rparr>,
        None)"
proof -
  have "truthy (getHeader (request_with [(Inertia, ''true'')] ''GET'') Inertia)"
    by code_simp
  moreover have "buildPageObject example_inertia (request_with [(Inertia, ''true'')] ''GET'')
       ''Home'' (Some example_props) = Inr example_first_load"
    by code_simp
  ultimately have "render no_document no_document example_inertia
       (request_with [(Inertia, ''true'')] ''GET'') ''Home'' (Some example_props)
     = ([SetHeader (Hdr Inertia) (Lit ''true''), Json example_first_load], None)"
    by (rule render_protocol_request)
  moreover have "HttpAdapter_json stringify_circular example_first_load fresh_response
     = (\<lparr> statusCode = 200, headers = [(''Content-Type'', ''application/json'')], body = None \<rparr>,
        Some (Error ''Converting circular structure to JSON''))"
    by (simp add: HttpAdapter_json_def stringify_circular_def fresh_response_def
          response_setHeader_def)
  moreover have "HttpAdapter_json_catching stringify_circular example_first_load fresh_response
     = (\<lparr> statusCode = 500, headers = [(''Content-Type'', ''application/json'')],
          body = Some ''{\"error\":\"Failed to serialize JSON\"}'' \<rparr>,
        None)"
    by (simp add: HttpAdapter_json_catching_def stringify_circular_def fresh_response_def
          response_setHeader_def response_end_def)
  ultimately show ?thesis by simp
qed

end
